theory Spec2Isabelle
  imports Main
begin

section \<open>Python values and the built-in operations the exporter uses\<close>

text \<open>
  A raw Jira issue is the result of \<^verbatim>\<open>json.load\<close>: \<^verbatim>\<open>None\<close>, a bool, a number, a
  string, a list or a dict with string keys. A dict is an association list read with
  \<open>map_of\<close>; JSON numbers are integers here (the exporter only tests them for truth).
\<close>

datatype json =
    JNull
  | JBool bool
  | JNum int
  | JStr string
  | JArr "json list"
  | JObj "(string \<times> json) list"

text \<open>
  The exceptions: \<^verbatim>\<open>AttributeError\<close> and \<^verbatim>\<open>TypeError\<close> are the two that the field
  functions can raise, \<^verbatim>\<open>NameError\<close> and \<^verbatim>\<open>SyntaxError\<close> those of
  \<^verbatim>\<open>export_issues\<close>.
\<close>

datatype error = AttributeError | TypeError | NameError | SyntaxError

text \<open>\<^verbatim>\<open>if x:\<close>, the truth value of a Python object.\<close>

fun truthy :: "json \<Rightarrow> bool" where
  "truthy JNull = False"
| "truthy (JBool b) = b"
| "truthy (JNum n) = (n \<noteq> 0)"
| "truthy (JStr s) = (s \<noteq> [])"
| "truthy (JArr xs) = (xs \<noteq> [])"
| "truthy (JObj kv) = (kv \<noteq> [])"

text \<open>
  \<^verbatim>\<open>x.get(k)\<close>: on a dict the value or \<^verbatim>\<open>None\<close>; every other object has no
  attribute \<^verbatim>\<open>get\<close>.
\<close>

fun py_get :: "json \<Rightarrow> string \<Rightarrow> error + json" where
  "py_get (JObj kv) k = Inr (case map_of kv k of None \<Rightarrow> JNull | Some v \<Rightarrow> v)"
| "py_get JNull k = Inl AttributeError"
| "py_get (JBool b) k = Inl AttributeError"
| "py_get (JNum n) k = Inl AttributeError"
| "py_get (JStr s) k = Inl AttributeError"
| "py_get (JArr xs) k = Inl AttributeError"

text \<open>\<^verbatim>\<open>needle in hay\<close> on strings.\<close>

fun startswith :: "string \<Rightarrow> string \<Rightarrow> bool" where
  "startswith [] hay = True"
| "startswith (c # cs) [] = False"
| "startswith (c # cs) (h # hs) = (c = h \<and> startswith cs hs)"

fun str_in :: "string \<Rightarrow> string \<Rightarrow> bool" where
  "str_in needle [] = (needle = [])"
| "str_in needle (h # hs) = (startswith needle (h # hs) \<or> str_in needle hs)"

text \<open>\<^verbatim>\<open>s.split(c)\<close> for a one-character separator: never an empty list.\<close>

fun split :: "char \<Rightarrow> string \<Rightarrow> string list" where
  "split c [] = [[]]"
| "split c (x # xs) =
     (if x = c then [] # split c xs
      else (case split c xs of [] \<Rightarrow> [[x]] | w # ws \<Rightarrow> (x # w) # ws))"

text \<open>\<^verbatim>\<open>sep.join(values)\<close>: a \<^verbatim>\<open>TypeError\<close> unless every item is a string.\<close>

fun join :: "string \<Rightarrow> string list \<Rightarrow> string" where
  "join sep [] = []"
| "join sep [s] = s"
| "join sep (s # t # ts) = s @ sep @ join sep (t # ts)"

fun strs_of :: "json list \<Rightarrow> string list option" where
  "strs_of [] = Some []"
| "strs_of (JStr s # vs) = (case strs_of vs of None \<Rightarrow> None | Some ss \<Rightarrow> Some (s # ss))"
| "strs_of (v # vs) = None"

definition py_join :: "string \<Rightarrow> json list \<Rightarrow> error + json" where
  "py_join sep values =
     (case strs_of values of None \<Rightarrow> Inl TypeError | Some ss \<Rightarrow> Inr (JStr (join sep ss)))"

section \<open>The field functions of \<^verbatim>\<open>export_issues_with_specific_fields.py\<close>\<close>

subsection \<open>Cascading select list\<close>

text \<open>
  The \<^verbatim>\<open>for\<close> loop of \<^verbatim>\<open>_get_value_for_cascading_select_field\<close>: the parts still to
  visit and \<^verbatim>\<open>nest\<close>; the result is \<^verbatim>\<open>values\<close> as the loop leaves it.
\<close>

fun cascading_loop :: "string list \<Rightarrow> json \<Rightarrow> error + json list" where
  "cascading_loop [] nest = Inr []"
| "cascading_loop (path_part # rest) nest =
     (if str_in ''|'' path_part then
        (case py_get nest ''value'' of
           Inl e \<Rightarrow> Inl e
         | Inr parent \<Rightarrow>
            (case py_get nest ''child'' of
               Inl e \<Rightarrow> Inl e
             | Inr child_option \<Rightarrow>
                (if truthy child_option then
                   (case py_get child_option ''value'' of
                      Inl e \<Rightarrow> Inl e
                    | Inr child \<Rightarrow> Inr [parent, child])
                 else Inr [parent])))
      else
        (case py_get nest path_part of
           Inl e \<Rightarrow> Inl e
         | Inr nest' \<Rightarrow> cascading_loop rest nest'))"

definition get_value_for_cascading_select_field :: "string \<Rightarrow> json \<Rightarrow> error + json" where
  "get_value_for_cascading_select_field field_path issue =
     (if \<not> str_in ''|'' field_path then Inr (JStr '''')
      else
        (case cascading_loop (split CHR ''.'' field_path) issue of
           Inl e \<Rightarrow> Inl e
         | Inr values \<Rightarrow>
            (if length values = 2 then py_join ''-'' values
             else if length values = 1 then Inr (values ! 0)
             else Inr (JStr ''''))))"

subsection \<open>Multiple select list\<close>

text \<open>The list comprehension \<^verbatim>\<open>[nest[i].get('value') for i in range(len(nest))]\<close>.\<close>

fun get_values :: "json list \<Rightarrow> error + json list" where
  "get_values [] = Inr []"
| "get_values (x # xs) =
     (case py_get x ''value'' of
        Inl e \<Rightarrow> Inl e
      | Inr v \<Rightarrow> (case get_values xs of Inl e \<Rightarrow> Inl e | Inr vs \<Rightarrow> Inr (v # vs)))"

text \<open>
  The \<^verbatim>\<open>for\<close> loop of \<^verbatim>\<open>_get_value_for_multiple_choice_field\<close> together with the
  \<^verbatim>\<open>return\<close> that follows it: a loop that runs out of parts leaves \<^verbatim>\<open>values = []\<close>.
\<close>

fun multiple_choice_loop :: "string list \<Rightarrow> json \<Rightarrow> error + json" where
  "multiple_choice_loop [] nest = py_join ''|'' []"
| "multiple_choice_loop (path_part # rest) nest =
     (case nest of
        JArr xs \<Rightarrow>
          (case get_values xs of Inl e \<Rightarrow> Inl e | Inr values \<Rightarrow> py_join ''|'' values)
      | _ \<Rightarrow>
          (if truthy nest then
             (case py_get nest path_part of
                Inl e \<Rightarrow> Inl e
              | Inr nest' \<Rightarrow> multiple_choice_loop rest nest')
           else Inr (JStr '''')))"

definition get_value_for_multiple_choice_field :: "string \<Rightarrow> json \<Rightarrow> error + json" where
  "get_value_for_multiple_choice_field field_path issue =
     (if \<not> str_in ''..'' field_path then Inr (JStr '''')
      else multiple_choice_loop (split CHR ''.'' field_path) issue)"

subsection \<open>One row\<close>

text \<open>
  The body of the \<^verbatim>\<open>for field in fields\<close> loop of \<^verbatim>\<open>get_field_values\<close>, for one
  field. \<^verbatim>\<open>path_to_fields\<close> is the dict read from \<^verbatim>\<open>path_to_fields.json\<close> and
  \<^verbatim>\<open>issue_field_values\<close> the dict that the library call
  \<^verbatim>\<open>flatten(issue, separator='.')\<close> returns; both are parameters. A field without a
  path gives \<^verbatim>\<open>field_path = None\<close>, and \<^verbatim>\<open>'..' in None\<close> raises \<^verbatim>\<open>TypeError\<close>.
\<close>

definition field_value ::
  "(string \<times> string) list \<Rightarrow> (string \<times> json) list \<Rightarrow> json \<Rightarrow> string \<Rightarrow> error + json" where
  "field_value path_to_fields issue_field_values issue field =
     (case map_of path_to_fields field of
        None \<Rightarrow> Inl TypeError
      | Some field_path \<Rightarrow>
         (if str_in ''..'' field_path then
            get_value_for_multiple_choice_field field_path issue
          else if str_in ''|'' field_path then
            get_value_for_cascading_select_field field_path issue
          else
            Inr (case map_of issue_field_values field_path of None \<Rightarrow> JNull | Some v \<Rightarrow> v)))"

fun field_values_loop ::
  "(string \<times> string) list \<Rightarrow> (string \<times> json) list \<Rightarrow> json \<Rightarrow> string list \<Rightarrow> json list
     \<Rightarrow> error + json list" where
  "field_values_loop path_to_fields issue_field_values issue [] filtered_field_values =
     Inr filtered_field_values"
| "field_values_loop path_to_fields issue_field_values issue (field # fields)
       filtered_field_values =
     (case field_value path_to_fields issue_field_values issue field of
        Inl e \<Rightarrow> Inl e
      | Inr v \<Rightarrow>
          field_values_loop path_to_fields issue_field_values issue fields
            (filtered_field_values @ [v]))"

definition get_field_values ::
  "(string \<times> string) list \<Rightarrow> (string \<times> json) list \<Rightarrow> json \<Rightarrow> string list
     \<Rightarrow> error + json list" where
  "get_field_values path_to_fields issue_field_values issue fields =
     field_values_loop path_to_fields issue_field_values issue fields []"

subsection \<open>\<^verbatim>\<open>export_issues\<close>\<close>

text \<open>
  An issue as \<^verbatim>\<open>jira.search_issues\<close> returns it: its \<^verbatim>\<open>raw\<close> document, and the
  flattened dict that \<^verbatim>\<open>get_field_values\<close> computes from it.
\<close>

datatype issue = Issue (raw: json) (flattened: "(string \<times> json) list")

text \<open>
  \<^verbatim>\<open>for issue in issues_batch: writer.writerow(get_field_values(...))\<close>: the rows are
  appended to the output; an exception leaves the loop and the export, with the rows
  written before it.
\<close>

fun write_rows ::
  "(string \<times> string) list \<Rightarrow> string list \<Rightarrow> issue list \<Rightarrow> json list list
     \<Rightarrow> (error + unit) \<times> json list list" where
  "write_rows path_to_fields fields [] output = (Inr (), output)"
| "write_rows path_to_fields fields (i # issues_batch) output =
     (case get_field_values path_to_fields (flattened i) (raw i) fields of
        Inl e \<Rightarrow> (Inl e, output)
      | Inr row \<Rightarrow> write_rows path_to_fields fields issues_batch (output @ [row]))"

text \<open>
  The \<^verbatim>\<open>while True\<close> loop, from the request of line 154 to the test of line 168.
  \<open>search_issues maxResults startAt\<close> is the remote service (the query and the fields
  are fixed for the run). The state is \<^verbatim>\<open>page_num\<close>, the \<^verbatim>\<open>startAt\<close> offsets
  requested so far and the rows written so far; the result is the exception or the last
  \<^verbatim>\<open>page_num\<close>, with the offsets and the rows. The loop has no bound of its own, so
  not returning is the value \<open>None\<close>. The \<^verbatim>\<open>print\<close> call of lines 152 and 153
  writes to the standard output, which is not part of the state; that its literal is not
  closed is what \<^verbatim>\<open>export_issues\<close> below starts with.
\<close>

partial_function (option) export_pages ::
  "(nat \<Rightarrow> nat \<Rightarrow> issue list) \<Rightarrow> (string \<times> string) list \<Rightarrow> string list \<Rightarrow> nat
     \<Rightarrow> nat \<Rightarrow> nat list \<Rightarrow> json list list
     \<Rightarrow> ((error + nat) \<times> nat list \<times> json list list) option" where
  "export_pages search_issues path_to_fields fields batch_size page_num requested output =
     (let issues_batch = search_issues batch_size (page_num * batch_size) in
      (case write_rows path_to_fields fields issues_batch output of
         (Inl e, output') \<Rightarrow> Some (Inl e, requested @ [page_num * batch_size], output')
       | (Inr u, output') \<Rightarrow>
          (if length issues_batch < batch_size then
             Some (Inr page_num, requested @ [page_num * batch_size], output')
           else
             export_pages search_issues path_to_fields fields batch_size (page_num + 1)
               (requested @ [page_num * batch_size]) output')))"

text \<open>
  The names that the module binds: those of its imports (lines 2 to 10) and its four
  functions. Reading any other name that is not a local variable or a built-in raises
  \<^verbatim>\<open>NameError\<close>.
\<close>

definition module_names :: "string list" where
  "module_names =
     [''csv'', ''json'', ''flatten'', ''time'', ''datetime'',
      ''List'', ''Dict'', ''Any'', ''Optional'', ''Union'', ''JIRA'', ''credentials'',
      ''_get_value_for_cascading_select_field'', ''_get_value_for_multiple_choice_field'',
      ''get_field_values'', ''export_issues'']"

definition load_name :: "string \<Rightarrow> error + unit" where
  "load_name name = (if name \<in> set module_names then Inr () else Inl NameError)"

text \<open>
  Line 152, the first line of the \<^verbatim>\<open>print\<close> call in the loop, without its
  indentation. A string literal that opens with one quote has to close on the line on
  which it opens; \<open>unterminated inside line\<close> reads the line quote by quote and tells
  whether a literal is still open at its end.
\<close>

definition line_152 :: string where
  "line_152 = ''print(f'' @ [CHR 0x27] @ ''exporting {page_num} page..''"

fun unterminated :: "bool \<Rightarrow> string \<Rightarrow> bool" where
  "unterminated inside [] = inside"
| "unterminated inside (c # cs) =
     unterminated (if c = CHR 0x27 then \<not> inside else inside) cs"

text \<open>
  \<^verbatim>\<open>export_issues\<close>. Python compiles a module before it runs any statement of it, so
  a literal that is not closed is a \<^verbatim>\<open>SyntaxError\<close> before the body starts. The first
  statement of the body (line 132) reads the name \<^verbatim>\<open>credential\<close>; then come
  \<^verbatim>\<open>page_num = 0\<close>, \<^verbatim>\<open>batch_size = 100\<close> and the loop. The result carries the offsets
  requested and the rows written up to the exception or the return.
\<close>

definition export_issues ::
  "(nat \<Rightarrow> nat \<Rightarrow> issue list) \<Rightarrow> (string \<times> string) list \<Rightarrow> string list
     \<Rightarrow> ((error + nat) \<times> nat list \<times> json list list) option" where
  "export_issues search_issues path_to_fields fields =
     (if unterminated False line_152 then Some (Inl SyntaxError, [], [])
      else
        (case load_name ''credential'' of
           Inl e \<Rightarrow> Some (Inl e, [], [])
         | Inr u \<Rightarrow> export_pages search_issues path_to_fields fields 100 0 [] []))"

section \<open>Reading a document along a path\<close>

text \<open>
  The node found by following the keys \<open>ks\<close> from a node with \<^verbatim>\<open>get\<close>: a key that a
  dict does not have gives \<^verbatim>\<open>None\<close>, and nothing lies below a node that is not a dict.
\<close>

fun descend :: "string list \<Rightarrow> json \<Rightarrow> json option" where
  "descend [] node = Some node"
| "descend (k # ks) (JObj kv) =
     descend ks (case map_of kv k of None \<Rightarrow> JNull | Some v \<Rightarrow> v)"
| "descend (k # ks) JNull = None"
| "descend (k # ks) (JBool b) = None"
| "descend (k # ks) (JNum n) = None"
| "descend (k # ks) (JStr s) = None"
| "descend (k # ks) (JArr xs) = None"

text \<open>An option of a select list: a dict whose \<^verbatim>\<open>value\<close> is the string \<open>s\<close>.\<close>

fun has_value :: "json \<Rightarrow> string \<Rightarrow> bool" where
  "has_value (JObj kv) s = (map_of kv ''value'' = Some (JStr s))"
| "has_value JNull s = False"
| "has_value (JBool b) s = False"
| "has_value (JNum n) s = False"
| "has_value (JStr t) s = False"
| "has_value (JArr xs) s = False"

section \<open>The field functions on a store of objects\<close>

text \<open>
  To tell what a call changes, the field functions are read once more with the objects
  in a store. A value is \<^verbatim>\<open>None\<close>, a bool, a number, a string or a reference to an
  object; an object is a list or a dict; the store is the list of the objects made so
  far, and the address of an object is its position. A new object goes to the end of the
  store, and only \<^verbatim>\<open>append\<close> changes an object that is there.
\<close>

type_synonym addr = nat

datatype pyval = VNone | VBool bool | VNum int | VStr string | VRef addr

datatype pyobj = PList "pyval list" | PDict "(string \<times> pyval) list"

type_synonym heap = "pyobj list"

fun deref :: "heap \<Rightarrow> pyval \<Rightarrow> pyobj option" where
  "deref h (VRef a) = (if a < length h then Some (h ! a) else None)"
| "deref h VNone = None"
| "deref h (VBool b) = None"
| "deref h (VNum n) = None"
| "deref h (VStr s) = None"

text \<open>\<^verbatim>\<open>x.get(k)\<close>, \<^verbatim>\<open>if x:\<close>, \<^verbatim>\<open>values.append(v)\<close> and \<^verbatim>\<open>sep.join(values)\<close>.\<close>

definition h_get :: "heap \<Rightarrow> pyval \<Rightarrow> string \<Rightarrow> error + pyval" where
  "h_get h v k =
     (case deref h v of
        Some (PDict kv) \<Rightarrow> Inr (case map_of kv k of None \<Rightarrow> VNone | Some x \<Rightarrow> x)
      | Some (PList xs) \<Rightarrow> Inl AttributeError
      | None \<Rightarrow> Inl AttributeError)"

definition h_truthy :: "heap \<Rightarrow> pyval \<Rightarrow> bool" where
  "h_truthy h v =
     (case v of
        VNone \<Rightarrow> False
      | VBool b \<Rightarrow> b
      | VNum n \<Rightarrow> n \<noteq> 0
      | VStr s \<Rightarrow> s \<noteq> []
      | VRef a \<Rightarrow>
          (case deref h v of
             Some (PList xs) \<Rightarrow> xs \<noteq> []
           | Some (PDict kv) \<Rightarrow> kv \<noteq> []
           | None \<Rightarrow> False))"

definition h_append :: "heap \<Rightarrow> addr \<Rightarrow> pyval \<Rightarrow> heap" where
  "h_append h a v =
     (case deref h (VRef a) of
        Some (PList xs) \<Rightarrow> h[a := PList (xs @ [v])]
      | Some (PDict kv) \<Rightarrow> h
      | None \<Rightarrow> h)"

fun strs_of_v :: "pyval list \<Rightarrow> string list option" where
  "strs_of_v [] = Some []"
| "strs_of_v (VStr s # vs) = (case strs_of_v vs of None \<Rightarrow> None | Some ss \<Rightarrow> Some (s # ss))"
| "strs_of_v (v # vs) = None"

definition v_join :: "string \<Rightarrow> pyval list \<Rightarrow> error + pyval" where
  "v_join sep values =
     (case strs_of_v values of None \<Rightarrow> Inl TypeError | Some ss \<Rightarrow> Inr (VStr (join sep ss)))"

definition h_join :: "string \<Rightarrow> heap \<Rightarrow> addr \<Rightarrow> error + pyval" where
  "h_join sep h a =
     (case deref h (VRef a) of
        Some (PList values) \<Rightarrow> v_join sep values
      | Some (PDict kv) \<Rightarrow> Inl TypeError
      | None \<Rightarrow> Inl TypeError)"

text \<open>
  \<^verbatim>\<open>_get_value_for_cascading_select_field\<close>: \<^verbatim>\<open>values = []\<close> makes a new list, whose
  address is the length of the store, the loop appends to it, and the three-way test on
  \<^verbatim>\<open>len(values)\<close> reads it.
\<close>

fun cascading_loop_h ::
  "string list \<Rightarrow> pyval \<Rightarrow> addr \<Rightarrow> heap \<Rightarrow> (error + unit) \<times> heap" where
  "cascading_loop_h [] nest values h = (Inr (), h)"
| "cascading_loop_h (path_part # rest) nest values h =
     (if str_in ''|'' path_part then
        (case h_get h nest ''value'' of
           Inl e \<Rightarrow> (Inl e, h)
         | Inr parent \<Rightarrow>
            (case h_get (h_append h values parent) nest ''child'' of
               Inl e \<Rightarrow> (Inl e, h_append h values parent)
             | Inr child_option \<Rightarrow>
                (if h_truthy (h_append h values parent) child_option then
                   (case h_get (h_append h values parent) child_option ''value'' of
                      Inl e \<Rightarrow> (Inl e, h_append h values parent)
                    | Inr child \<Rightarrow> (Inr (), h_append (h_append h values parent) values child))
                 else (Inr (), h_append h values parent))))
      else
        (case h_get h nest path_part of
           Inl e \<Rightarrow> (Inl e, h)
         | Inr nest' \<Rightarrow> cascading_loop_h rest nest' values h))"

definition cascading_return :: "pyval list \<Rightarrow> error + pyval" where
  "cascading_return vs =
     (if length vs = 2 then v_join ''-'' vs
      else if length vs = 1 then Inr (vs ! 0)
      else Inr (VStr ''''))"

definition get_value_for_cascading_select_field_h ::
  "string \<Rightarrow> pyval \<Rightarrow> heap \<Rightarrow> (error + pyval) \<times> heap" where
  "get_value_for_cascading_select_field_h field_path issue h =
     (if \<not> str_in ''|'' field_path then (Inr (VStr ''''), h)
      else
        (case cascading_loop_h (split CHR ''.'' field_path) issue (length h) (h @ [PList []]) of
           (Inl e, h1) \<Rightarrow> (Inl e, h1)
         | (Inr u, h1) \<Rightarrow>
            (case deref h1 (VRef (length h)) of
               Some (PList vs) \<Rightarrow> (cascading_return vs, h1)
             | Some (PDict kv) \<Rightarrow> (Inl TypeError, h1)
             | None \<Rightarrow> (Inl TypeError, h1))))"

text \<open>
  \<^verbatim>\<open>_get_value_for_multiple_choice_field\<close>: the list comprehension makes a second new
  list and binds \<^verbatim>\<open>values\<close> to it.
\<close>

fun get_values_h :: "heap \<Rightarrow> pyval list \<Rightarrow> error + pyval list" where
  "get_values_h h [] = Inr []"
| "get_values_h h (x # xs) =
     (case h_get h x ''value'' of
        Inl e \<Rightarrow> Inl e
      | Inr v \<Rightarrow> (case get_values_h h xs of Inl e \<Rightarrow> Inl e | Inr vs \<Rightarrow> Inr (v # vs)))"

fun multiple_choice_loop_h ::
  "string list \<Rightarrow> pyval \<Rightarrow> addr \<Rightarrow> heap \<Rightarrow> (error + pyval) \<times> heap" where
  "multiple_choice_loop_h [] nest values h = (h_join ''|'' h values, h)"
| "multiple_choice_loop_h (path_part # rest) nest values h =
     (case deref h nest of
        Some (PList xs) \<Rightarrow>
          (case get_values_h h xs of
             Inl e \<Rightarrow> (Inl e, h)
           | Inr vs \<Rightarrow> (h_join ''|'' (h @ [PList vs]) (length h), h @ [PList vs]))
      | _ \<Rightarrow>
          (if h_truthy h nest then
             (case h_get h nest path_part of
                Inl e \<Rightarrow> (Inl e, h)
              | Inr nest' \<Rightarrow> multiple_choice_loop_h rest nest' values h)
           else (Inr (VStr ''''), h)))"

definition get_value_for_multiple_choice_field_h ::
  "string \<Rightarrow> pyval \<Rightarrow> heap \<Rightarrow> (error + pyval) \<times> heap" where
  "get_value_for_multiple_choice_field_h field_path issue h =
     (if \<not> str_in ''..'' field_path then (Inr (VStr ''''), h)
      else multiple_choice_loop_h (split CHR ''.'' field_path) issue (length h) (h @ [PList []]))"

text \<open>The body of the loop of \<^verbatim>\<open>get_field_values\<close> for one field.\<close>

definition field_value_h ::
  "(string \<times> string) list \<Rightarrow> (string \<times> pyval) list \<Rightarrow> pyval \<Rightarrow> string \<Rightarrow> heap
     \<Rightarrow> (error + pyval) \<times> heap" where
  "field_value_h path_to_fields issue_field_values issue field h =
     (case map_of path_to_fields field of
        None \<Rightarrow> (Inl TypeError, h)
      | Some field_path \<Rightarrow>
         (if str_in ''..'' field_path then get_value_for_multiple_choice_field_h field_path issue h
          else if str_in ''|'' field_path then get_value_for_cascading_select_field_h field_path issue h
          else
            (Inr (case map_of issue_field_values field_path of None \<Rightarrow> VNone | Some v \<Rightarrow> v),
             h)))"

text \<open>
  A store is closed when every reference in one of its objects is an address of the
  store. \<open>extends h g\<close>: the store \<open>g\<close> has every object of \<open>h\<close> at its address,
  unchanged, and possibly new objects after them.
\<close>

fun valid :: "heap \<Rightarrow> pyval \<Rightarrow> bool" where
  "valid h (VRef a) = (a < length h)"
| "valid h VNone = True"
| "valid h (VBool b) = True"
| "valid h (VNum n) = True"
| "valid h (VStr s) = True"

fun items :: "pyobj \<Rightarrow> pyval list" where
  "items (PList xs) = xs"
| "items (PDict kv) = map snd kv"

definition closed_heap :: "heap \<Rightarrow> bool" where
  "closed_heap h = list_all (\<lambda>ob. list_all (valid h) (items ob)) h"

definition extends :: "heap \<Rightarrow> heap \<Rightarrow> bool" where
  "extends h g = (take (length h) g = h)"

section \<open>Facts about the built-in operations\<close>

lemma strs_of_map_JStr: "strs_of (map JStr ss) = Some ss"
  by (induction ss) auto

lemma py_join_strs: "py_join sep (map JStr ss) = Inr (JStr (join sep ss))"
  by (simp add: py_join_def strs_of_map_JStr)

lemma get_values_has_value:
  "list_all2 has_value xs ss \<Longrightarrow> get_values xs = Inr (map JStr ss)"
proof (induction xs ss rule: list_all2_induct)
  case Nil
  then show ?case by simp
next
  case (Cons x s xs ss)
  then show ?case by (cases x) auto
qed

lemma descend_JNull: "descend ks JNull = Some node \<Longrightarrow> ks = [] \<and> node = JNull"
  by (cases ks) auto

section \<open>The multiple select walk\<close>

lemma loop_at_list:
  "descend ks issue = Some (JArr xs) \<Longrightarrow>
   multiple_choice_loop (ks @ part # rest) issue =
     (case get_values xs of Inl e \<Rightarrow> Inl e | Inr values \<Rightarrow> py_join ''|'' values)"
proof (induction ks arbitrary: issue)
  case Nil
  then show ?case by simp
next
  case (Cons k ks)
  then obtain kv where kv: "issue = JObj kv" by (cases issue) auto
  let ?n = "case map_of kv k of None \<Rightarrow> JNull | Some v \<Rightarrow> v"
  from Cons.prems kv have d: "descend ks ?n = Some (JArr xs)" by simp
  have "kv \<noteq> []"
  proof
    assume "kv = []"
    with d have "descend ks JNull = Some (JArr xs)" by simp
    then show False by (auto dest: descend_JNull)
  qed
  with kv Cons.IH [OF d] show ?case by simp
qed

lemma loop_at_falsy:
  "descend ks issue = Some node \<Longrightarrow> \<not> truthy node \<Longrightarrow>
   multiple_choice_loop (ks @ part # rest) issue = Inr (JStr '''')"
proof (induction ks arbitrary: issue)
  case Nil
  then show ?case by (cases issue) (auto simp: py_join_def)
next
  case (Cons k ks)
  then obtain kv where kv: "issue = JObj kv" by (cases issue) auto
  let ?n = "case map_of kv k of None \<Rightarrow> JNull | Some v \<Rightarrow> v"
  from Cons.prems kv have d: "descend ks ?n = Some node" by simp
  show ?case
  proof (cases "kv = []")
    case True
    with kv show ?thesis by simp
  next
    case False
    with kv Cons.IH [OF d Cons.prems(2)] show ?thesis by simp
  qed
qed

text \<open>
  C1, as amended. For a path that contains \<open>..\<close>: when the keys \<open>ks\<close> before some part
  of the path lead to a list whose items are all dicts with a string \<^verbatim>\<open>value\<close>, the
  field is those strings joined by \<open>|\<close>, in the order of the list; when they lead to a
  node that is empty or absent (any false value, the empty list included), the field is
  the empty string. The list has to be met while a part of the path is still left, and
  an item without a string \<^verbatim>\<open>value\<close> is not covered.
\<close>

theorem multiple_choice_field_joins_values:
  assumes "str_in ''..'' field_path"
    and "split CHR ''.'' field_path = ks @ part # rest"
    and "descend ks issue = Some node"
  shows "(node = JArr xs \<and> list_all2 has_value xs ss \<longrightarrow>
            get_value_for_multiple_choice_field field_path issue = Inr (JStr (join ''|'' ss)))
       \<and> (\<not> truthy node \<longrightarrow>
            get_value_for_multiple_choice_field field_path issue = Inr (JStr ''''))"
  using assms
  by (auto simp: get_value_for_multiple_choice_field_def loop_at_list loop_at_falsy
      get_values_has_value py_join_strs)

theorem multiple_choice_field_example:
  "get_value_for_multiple_choice_field ''fields.components..value''
     (JObj [(''fields'', JObj [(''components'',
        JArr [JObj [(''value'', JStr ''UI'')], JObj [(''value'', JStr ''Backend'')]])])])
   = Inr (JStr ''UI|Backend'')"
  using multiple_choice_field_joins_values
    [of "''fields.components..value''" "[''fields'', ''components'']" "[]" "[''value'']"
     "JObj [(''fields'', JObj [(''components'',
        JArr [JObj [(''value'', JStr ''UI'')], JObj [(''value'', JStr ''Backend'')]])])]"
     "JArr [JObj [(''value'', JStr ''UI'')], JObj [(''value'', JStr ''Backend'')]]"
     "[JObj [(''value'', JStr ''UI'')], JObj [(''value'', JStr ''Backend'')]]"
     "[''UI'', ''Backend'']"]
  by simp

text \<open>
  C1 as stated fails twice. A list item without \<^verbatim>\<open>value\<close> (a Jira component has
  \<^verbatim>\<open>name\<close>) puts \<^verbatim>\<open>None\<close> into \<^verbatim>\<open>values\<close> and \<^verbatim>\<open>'|'.join\<close> raises; and a list
  that is reached only with the last part of the path is never looked at, so the field
  is empty although the list has a value.
\<close>

theorem multiple_choice_field_counterexample:
  "get_value_for_multiple_choice_field ''fields.components..value''
     (JObj [(''fields'', JObj [(''components'', JArr [JObj [(''name'', JStr ''UI'')]])])])
   = Inl TypeError
   \<and> get_value_for_multiple_choice_field ''a..''
     (JObj [(''a'', JObj [('''', JObj [('''', JArr [JObj [(''value'', JStr ''X'')]])])])])
   = Inr (JStr '''')"
  by (simp add: get_value_for_multiple_choice_field_def py_join_def)

section \<open>The row of one issue\<close>

lemma loop_Inr_iff:
  "field_values_loop pt flat d fs acc = Inr row \<longleftrightarrow>
     (\<exists>vs. row = acc @ vs \<and> list_all2 (\<lambda>f v. field_value pt flat d f = Inr v) fs vs)"
proof (induction fs arbitrary: acc)
  case Nil
  then show ?case by auto
next
  case (Cons f fs)
  show ?case
  proof (cases "field_value pt flat d f")
    case (Inl e)
    then show ?thesis by (simp add: list_all2_Cons1)
  next
    case (Inr v)
    then show ?thesis by (auto simp: Cons.IH list_all2_Cons1)
  qed
qed

lemma field_value_cong_table:
  "map_of pt' = map_of pt \<Longrightarrow> field_value pt' flat d f = field_value pt flat d f"
  by (simp add: field_value_def)

lemma loop_cong_table:
  "map_of pt' = map_of pt \<Longrightarrow>
   field_values_loop pt' flat d fs acc = field_values_loop pt flat d fs acc"
proof (induction fs arbitrary: acc)
  case Nil
  show ?case by simp
next
  case (Cons f fs)
  from Cons.prems have "field_value pt' flat d f = field_value pt flat d f"
    by (rule field_value_cong_table)
  with Cons show ?case by (cases "field_value pt flat d f") simp_all
qed

lemma loop_append:
  "field_values_loop pt flat d (xs @ ys) acc =
     (case field_values_loop pt flat d xs acc of Inl e \<Rightarrow> Inl e
      | Inr acc' \<Rightarrow> field_values_loop pt flat d ys acc')"
  by (induction xs arbitrary: acc) (auto split: sum.splits)

lemma loop_all_Inr:
  "\<forall>g \<in> set pre. \<exists>v. field_value pt flat d g = Inr v \<Longrightarrow>
   \<exists>acc'. field_values_loop pt flat d pre acc = Inr acc'"
  by (induction pre arbitrary: acc) auto

lemma loop_fails:
  "f \<in> set fs \<Longrightarrow> field_value pt flat d f = Inl e \<Longrightarrow>
   \<exists>e'. field_values_loop pt flat d fs acc = Inl e'"
  by (induction fs arbitrary: acc) (auto split: sum.splits)

text \<open>
  C8. The row of an issue has one value for each requested field, the value of the
  \<open>i\<close>-th field at position \<open>i\<close>, and there is such a row exactly when every field
  has a value. The order in which \<^verbatim>\<open>path_to_fields\<close> lists its entries does not matter:
  two tables with the same entries (a dict has each key once) give the same row.
\<close>

theorem exported_row_order:
  assumes "distinct (map fst pt)" and "distinct (map fst pt')" and "set pt' = set pt"
  shows "get_field_values pt' flat d fields = get_field_values pt flat d fields
       \<and> (get_field_values pt flat d fields = Inr row \<longleftrightarrow>
            length row = length fields
          \<and> (\<forall>i < length fields. field_value pt flat d (fields ! i) = Inr (row ! i)))"
proof -
  from assms have "map_of pt' = map_of pt" by (simp add: map_of_inject_set)
  then have "get_field_values pt' flat d fields = get_field_values pt flat d fields"
    unfolding get_field_values_def by (rule loop_cong_table)
  moreover have "get_field_values pt flat d fields = Inr row \<longleftrightarrow>
      length row = length fields
    \<and> (\<forall>i < length fields. field_value pt flat d (fields ! i) = Inr (row ! i))"
    by (auto simp: get_field_values_def loop_Inr_iff list_all2_conv_all_nth)
  ultimately show ?thesis by simp
qed

theorem exported_row_order_witness:
  "distinct (map fst [(''key'', ''key''), (''City'', ''fields.city..value'')])
   \<and> get_field_values [(''City'', ''fields.city..value''), (''key'', ''key'')]
       [(''key'', JStr ''TT-1'')]
       (JObj [(''key'', JStr ''TT-1''),
              (''fields'', JObj [(''city'', JArr [JObj [(''value'', JStr ''Oslo'')]])])])
       [''City'', ''key'']
     = Inr [JStr ''Oslo'', JStr ''TT-1'']"
  using exported_row_order
    [of "[(''key'', ''key''), (''City'', ''fields.city..value'')]"
        "[(''City'', ''fields.city..value''), (''key'', ''key'')]"
        "[(''key'', JStr ''TT-1'')]"
        "JObj [(''key'', JStr ''TT-1''),
              (''fields'', JObj [(''city'', JArr [JObj [(''value'', JStr ''Oslo'')]])])]"
        "[''City'', ''key'']" "[JStr ''Oslo'', JStr ''TT-1'']"]
  by (simp add: All_less_Suc field_value_def get_value_for_multiple_choice_field_def
      py_join_def insert_commute)

text \<open>
  C5, as amended. For a requested field that \<^verbatim>\<open>path_to_fields\<close> does not have, the
  lookup \<^verbatim>\<open>path_to_fields.get(field)\<close> does not fail: it gives \<^verbatim>\<open>None\<close>, and the value
  of the field for an issue is then the \<^verbatim>\<open>TypeError\<close> of \<^verbatim>\<open>'..' in None\<close>.
  \<^verbatim>\<open>get_field_values\<close> returns no row whenever such a field is among the requested
  ones; the exception is this \<^verbatim>\<open>TypeError\<close> when the fields before it have values,
  and nothing is raised as long as no issue is written (a page without issues).
\<close>

theorem unknown_field_raises_type_error:
  assumes "map_of pt f = None"
  shows "field_value pt flat d f = Inl TypeError
       \<and> (f \<in> set fields \<longrightarrow> (\<exists>e. get_field_values pt flat d fields = Inl e))
       \<and> ((\<forall>g \<in> set pre. \<exists>v. field_value pt flat d g = Inr v) \<longrightarrow>
            get_field_values pt flat d (pre @ f # post) = Inl TypeError)
       \<and> (f \<in> set fields \<longrightarrow> write_rows pt fields [] rows = (Inr (), rows))"
proof -
  from assms have fv: "field_value pt flat d f = Inl TypeError"
    by (simp add: field_value_def)
  have "\<exists>e. get_field_values pt flat d fields = Inl e" if "f \<in> set fields"
    unfolding get_field_values_def using that fv by (rule loop_fails)
  moreover have "get_field_values pt flat d (pre @ f # post) = Inl TypeError"
    if "\<forall>g \<in> set pre. \<exists>v. field_value pt flat d g = Inr v"
  proof -
    from that obtain acc' where "field_values_loop pt flat d pre [] = Inr acc'"
      using loop_all_Inr by blast
    with fv show ?thesis by (simp add: get_field_values_def loop_append)
  qed
  moreover have "write_rows pt fields [] rows = (Inr (), rows)" by simp
  ultimately show ?thesis using fv by blast
qed

theorem unknown_field_raises_type_error_witness:
  "map_of [(''key'', ''key'')] ''nonexistent'' = None
   \<and> field_value [(''key'', ''key'')] [(''key'', JStr ''TT-1'')] (JObj []) ''nonexistent''
     = Inl TypeError
   \<and> get_field_values [(''key'', ''key'')] [(''key'', JStr ''TT-1'')] (JObj [])
       [''key'', ''nonexistent'', ''key''] = Inl TypeError
   \<and> write_rows [(''key'', ''key'')] [''nonexistent''] [] [] = (Inr (), [])"
  using unknown_field_raises_type_error
    [of "[(''key'', ''key'')]" "''nonexistent''" "[(''key'', JStr ''TT-1'')]" "JObj []"
        "[''nonexistent'']" "[''key'']" "[''key'']" "[]"]
  by (simp add: field_value_def)

text \<open>
  C5 as stated fails. The exception of a field without a path is the \<^verbatim>\<open>TypeError\<close>
  that a field with a path raises too (here \<^verbatim>\<open>Components\<close>, whose list item has no
  \<^verbatim>\<open>value\<close>), so no error of its own tells the unknown field; and it is not raised at
  once: an earlier field that fails hides it (\<^verbatim>\<open>Region\<close> raises
  \<^verbatim>\<open>AttributeError\<close>), and with no issue to write nothing is raised.
\<close>

theorem unknown_field_counterexample:
  "field_value [(''Components'', ''fields.components..value'')] []
     (JObj [(''fields'', JObj [(''components'', JArr [JObj [(''name'', JStr ''UI'')]])])])
     ''nonexistent''
   = Inl TypeError
   \<and> field_value [(''Components'', ''fields.components..value'')] []
     (JObj [(''fields'', JObj [(''components'', JArr [JObj [(''name'', JStr ''UI'')]])])])
     ''Components''
   = Inl TypeError
   \<and> get_field_values [(''Region'', ''fields.customfield_1.|'')] []
     (JObj [(''fields'', JObj [(''summary'', JStr ''Crash'')])])
     [''Region'', ''nonexistent'']
   = Inl AttributeError
   \<and> write_rows [(''Region'', ''fields.customfield_1.|'')] [''nonexistent''] [] []
   = (Inr (), [])"
  by (simp add: get_field_values_def field_value_def get_value_for_multiple_choice_field_def
      get_value_for_cascading_select_field_def py_join_def)

section \<open>The three shapes of a path\<close>

text \<open>
  C6. The test for \<open>..\<close> comes first, the test for \<open>|\<close> second and the flattened
  lookup last: a path with \<open>..\<close> is a multiple select field whether or not it also has
  \<open>|\<close>.
\<close>

theorem dispatch_priority:
  assumes "map_of path_to_fields field = Some field_path"
  shows "(str_in ''..'' field_path \<longrightarrow>
            field_value path_to_fields issue_field_values issue field
              = get_value_for_multiple_choice_field field_path issue)
       \<and> (\<not> str_in ''..'' field_path \<and> str_in ''|'' field_path \<longrightarrow>
            field_value path_to_fields issue_field_values issue field
              = get_value_for_cascading_select_field field_path issue)
       \<and> (\<not> str_in ''..'' field_path \<and> \<not> str_in ''|'' field_path \<longrightarrow>
            field_value path_to_fields issue_field_values issue field
              = Inr (case map_of issue_field_values field_path of
                       None \<Rightarrow> JNull | Some v \<Rightarrow> v))"
  using assms by (simp add: field_value_def)

theorem dispatch_priority_witness:
  "str_in ''..'' ''f..|'' \<and> str_in ''|'' ''f..|''
   \<and> field_value [(''F'', ''f..|'')] []
       (JObj [(''f'', JArr [JObj [(''value'', JStr ''A'')]]), (''value'', JStr ''P'')]) ''F''
     = Inr (JStr ''A'')
   \<and> get_value_for_cascading_select_field ''f..|''
       (JObj [(''f'', JArr [JObj [(''value'', JStr ''A'')]]), (''value'', JStr ''P'')])
     = Inl AttributeError"
  using dispatch_priority [of "[(''F'', ''f..|'')]" "''F''" "''f..|''" "[]"
      "JObj [(''f'', JArr [JObj [(''value'', JStr ''A'')]]), (''value'', JStr ''P'')]"]
  by (simp add: get_value_for_multiple_choice_field_def
      get_value_for_cascading_select_field_def py_join_def)

text \<open>
  C3, as amended. For a path with neither marker the value of the field is the value
  that the flattened dict has under the path, as it is (a string stays the string, and
  nothing is converted); when the flattened dict has no such key the value is
  \<^verbatim>\<open>None\<close>, and nothing is raised.
\<close>

theorem scalar_field_value:
  assumes "map_of path_to_fields field = Some field_path"
    and "\<not> str_in ''..'' field_path" and "\<not> str_in ''|'' field_path"
  shows "(map_of issue_field_values field_path = Some v \<longrightarrow>
            get_field_values path_to_fields issue_field_values issue [field] = Inr [v])
       \<and> (map_of issue_field_values field_path = None \<longrightarrow>
            get_field_values path_to_fields issue_field_values issue [field] = Inr [JNull])"
  using assms by (simp add: get_field_values_def field_value_def)

theorem scalar_field_value_witness:
  "get_field_values [(''summary'', ''fields.summary'')] [(''fields.summary'', JStr ''Crash'')]
     (JObj [(''fields'', JObj [(''summary'', JStr ''Crash'')])]) [''summary'']
   = Inr [JStr ''Crash'']"
  using scalar_field_value [of "[(''summary'', ''fields.summary'')]" "''summary''"
      "''fields.summary''" "[(''fields.summary'', JStr ''Crash'')]" "JStr ''Crash''"
      "JObj [(''fields'', JObj [(''summary'', JStr ''Crash'')])]"]
  by simp

text \<open>
  C3 as stated fails: for a key that the flattened dict does not have the value is
  \<^verbatim>\<open>None\<close>, not the empty string.
\<close>

theorem scalar_field_value_counterexample:
  "get_field_values [(''summary'', ''fields.summary'')] [] (JObj [(''fields'', JObj [])])
     [''summary''] = Inr [JNull]
   \<and> get_field_values [(''summary'', ''fields.summary'')] [] (JObj [(''fields'', JObj [])])
     [''summary''] \<noteq> Inr [JStr '''']"
  by (simp add: get_field_values_def field_value_def)

section \<open>Cascading select fields\<close>

text \<open>
  C2 at the node \<^verbatim>\<open>{"id": "10"}\<close>, which has neither \<^verbatim>\<open>value\<close> nor \<^verbatim>\<open>child\<close>:
  \<^verbatim>\<open>values\<close> is \<^verbatim>\<open>[None]\<close>, its length is 1, and the function returns
  \<^verbatim>\<open>None\<close> where the claim, the annotation \<^verbatim>\<open>-> str\<close> and the branch
  \<^verbatim>\<open>else: return ''\<close> say the empty string.
\<close>

theorem cascading_neither_returns_none:
  "get_value_for_cascading_select_field ''fields.customfield_1.|''
     (JObj [(''fields'', JObj [(''customfield_1'', JObj [(''id'', JStr ''10'')])])])
   = Inr JNull"
  by (simp add: get_value_for_cascading_select_field_def)

text \<open>
  C4 at an issue without the field: the cascading walk calls \<^verbatim>\<open>get\<close> on \<^verbatim>\<open>None\<close>
  and raises \<^verbatim>\<open>AttributeError\<close>, where the multiple select walk, which tests
  \<^verbatim>\<open>if nest\<close> first, gives the empty string for the same issue.
\<close>

theorem cascading_missing_node_raises:
  "get_value_for_cascading_select_field ''fields.customfield_1.|''
     (JObj [(''fields'', JObj [(''summary'', JStr ''Crash'')])])
   = Inl AttributeError
   \<and> get_value_for_multiple_choice_field ''fields.customfield_1..value''
     (JObj [(''fields'', JObj [(''summary'', JStr ''Crash'')])])
   = Inr (JStr '''')"
  by (simp add: get_value_for_cascading_select_field_def
      get_value_for_multiple_choice_field_def)

section \<open>The export\<close>

text \<open>
  The loop of lines 150 to 171 taken alone, from any state in which it is entered: when
  the service has a page with fewer issues than \<^verbatim>\<open>batch_size\<close> (an empty page is
  one) the loop returns, and when it returns after page \<open>k\<close> without an exception,
  page \<open>k\<close> is such a page, no page before it is, and the offsets requested are those
  of the pages up to \<open>k\<close>.
\<close>

lemma export_pages_returns:
  assumes "length (search bs (n * bs)) < bs"
  shows "p \<le> n \<Longrightarrow> \<exists>r. export_pages search pt fields bs p req out = Some r"
proof (induction "n - p" arbitrary: p req out)
  case 0
  then have "p = n" by simp
  with assms show ?case
    by (subst export_pages.simps) (simp add: Let_def split: sum.splits prod.splits)
next
  case (Suc d)
  then have "d = n - (p + 1)" and "p + 1 \<le> n" by simp_all
  from Suc.hyps(1) [OF this] show ?case
    by (subst export_pages.simps) (simp add: Let_def split: sum.splits prod.splits)
qed

lemma export_pages_stops:
  assumes ret: "export_pages search pt fields bs p req out = Some r"
  shows "r = (Inr k, req', out') \<Longrightarrow>
   p \<le> k \<and> length (search bs (k * bs)) < bs
   \<and> (\<forall>j. p \<le> j \<and> j < k \<longrightarrow> \<not> length (search bs (j * bs)) < bs)
   \<and> req' = req @ map (\<lambda>m. m * bs) [p..<Suc k]"
proof -
  let ?P = "\<lambda>(search :: nat \<Rightarrow> nat \<Rightarrow> issue list) (pt :: (string \<times> string) list)
      (fields :: string list) bs p req (out :: json list list) r.
      \<forall>k req' (out' :: json list list). r = (Inr k, req', out') \<longrightarrow>
        p \<le> k \<and> length (search bs (k * bs)) < bs
        \<and> (\<forall>j. p \<le> j \<and> j < k \<longrightarrow> \<not> length (search bs (j * bs)) < bs)
        \<and> req' = req @ map (\<lambda>m. m * bs) [p..<Suc k]"
  have "?P search pt fields bs p req out r"
  proof (rule export_pages.raw_induct [where P = "?P", OF _ ret], goal_cases)
    case (1 f search pt fields bs p req out r)
    obtain w out1 where wr: "write_rows pt fields (search bs (p * bs)) out = (w, out1)"
      by (cases "write_rows pt fields (search bs (p * bs)) out")
    show ?case
    proof (intro allI impI)
      fix k req' and out' :: "json list list"
      assume r: "r = (Inr k, req', out')"
      show "p \<le> k \<and> length (search bs (k * bs)) < bs
        \<and> (\<forall>j. p \<le> j \<and> j < k \<longrightarrow> \<not> length (search bs (j * bs)) < bs)
        \<and> req' = req @ map (\<lambda>m. m * bs) [p..<Suc k]"
      proof (cases w)
        case (Inl e)
        with wr 1(2) r show ?thesis by (simp add: Let_def)
      next
        case (Inr u)
        show ?thesis
        proof (cases "length (search bs (p * bs)) < bs")
          case True
          with Inr wr 1(2) r show ?thesis by (auto simp: Let_def)
        next
          case False
          with Inr wr 1(2)
          have rec: "f search pt fields bs (p + 1) (req @ [p * bs]) out1 = Some r"
            by (simp add: Let_def)
          from 1(1) [OF rec] r
          have ih: "p + 1 \<le> k" "length (search bs (k * bs)) < bs"
            "\<forall>j. p + 1 \<le> j \<and> j < k \<longrightarrow> \<not> length (search bs (j * bs)) < bs"
            "req' = (req @ [p * bs]) @ map (\<lambda>m. m * bs) [p + 1..<Suc k]"
            by simp_all
          have "\<forall>j. p \<le> j \<and> j < k \<longrightarrow> \<not> length (search bs (j * bs)) < bs"
          proof (intro allI impI)
            fix j assume j: "p \<le> j \<and> j < k"
            show "\<not> length (search bs (j * bs)) < bs"
            proof (cases "j = p")
              case True
              with False show ?thesis by simp
            next
              case False
              with j have "p + 1 \<le> j \<and> j < k" by simp
              with ih(3) show ?thesis by blast
            qed
          qed
          moreover from ih(1) have "[p..<Suc k] = p # [p + 1..<Suc k]"
            by (simp add: upt_conv_Cons)
          with ih(4) have "req' = req @ map (\<lambda>m. m * bs) [p..<Suc k]" by simp
          ultimately show ?thesis using ih(1,2) by simp
        qed
      qed
    qed
  qed
  then show "r = (Inr k, req', out') \<Longrightarrow>
   p \<le> k \<and> length (search bs (k * bs)) < bs
   \<and> (\<forall>j. p \<le> j \<and> j < k \<longrightarrow> \<not> length (search bs (j * bs)) < bs)
   \<and> req' = req @ map (\<lambda>m. m * bs) [p..<Suc k]" by blast
qed

text \<open>
  C7. Whatever the remote service returns, also when its first page is full,
  \<^verbatim>\<open>export_issues\<close> ends before the first request: the literal of line 152 is not
  closed, so the module does not compile; and were it closed, the first statement of
  \<^verbatim>\<open>export_issues\<close> reads \<^verbatim>\<open>credential\<close>, a name that the module does not bind (the
  import is \<^verbatim>\<open>credentials\<close>), which raises \<^verbatim>\<open>NameError\<close>. No page is requested and no
  row is written: the requests do not end at a page with fewer issues than
  \<^verbatim>\<open>batch_size\<close>, as the loop would have them.
\<close>

theorem export_issues_requests_no_page:
  "export_issues search_issues path_to_fields fields = Some (Inl SyntaxError, [], [])
   \<and> load_name ''credential'' = Inl NameError
   \<and> load_name ''credentials'' = Inr ()"
  by (simp add: export_issues_def line_152_def load_name_def module_names_def)

section \<open>Resolving a field twice\<close>

lemma extends_refl: "extends h h"
  by (simp add: extends_def)

lemma extends_length: "extends h g \<Longrightarrow> length h \<le> length g"
proof -
  assume "extends h g"
  then have "length (take (length h) g) = length h" by (simp add: extends_def)
  then show ?thesis by (auto simp: min_def split: if_splits)
qed

lemma extends_nth: "extends h g \<Longrightarrow> a < length h \<Longrightarrow> g ! a = h ! a"
proof -
  assume e: "extends h g" and a: "a < length h"
  from a have "take (length h) g ! a = g ! a" by simp
  with e show ?thesis by (simp add: extends_def)
qed

lemma extends_snoc: "extends h g \<Longrightarrow> extends h (g @ [ob])"
  using extends_length [of h g] by (simp add: extends_def)

lemma extends_update: "extends h g \<Longrightarrow> length h \<le> a \<Longrightarrow> extends h (g[a := ob])"
  by (simp add: extends_def)

lemma deref_extends: "extends h g \<Longrightarrow> valid h v \<Longrightarrow> deref g v = deref h v"
  using extends_length [of h g] by (cases v) (auto simp: extends_nth)

lemma h_get_extends: "extends h g \<Longrightarrow> valid h v \<Longrightarrow> h_get g v k = h_get h v k"
  by (simp add: h_get_def deref_extends)

lemma h_truthy_extends: "extends h g \<Longrightarrow> valid h v \<Longrightarrow> h_truthy g v = h_truthy h v"
  by (cases v) (simp_all add: h_truthy_def deref_extends del: deref.simps)

lemma extends_append: "extends h g \<Longrightarrow> length h \<le> a \<Longrightarrow> extends h (h_append g a v)"
  by (auto simp: h_append_def extends_update split: option.splits pyobj.splits)

lemma length_h_append: "length (h_append g a v) = length g"
  by (auto simp: h_append_def split: option.splits pyobj.splits)

lemma h_append_nth:
  "a < length g \<Longrightarrow> g ! a = PList vs \<Longrightarrow> h_append g a v ! a = PList (vs @ [v])"
  by (simp add: h_append_def)

lemma closed_items:
  "closed_heap h \<Longrightarrow> a < length h \<Longrightarrow> x \<in> set (items (h ! a)) \<Longrightarrow> valid h x"
  by (auto simp: closed_heap_def list_all_iff)

lemma h_get_valid:
  assumes "closed_heap h" and "h_get h v k = Inr v'"
  shows "valid h v'"
proof (cases "deref h v")
  case None
  with assms(2) show ?thesis by (simp add: h_get_def)
next
  case (Some ob)
  then obtain a where v: "v = VRef a" and a: "a < length h" and ob: "ob = h ! a"
    by (cases v) (auto split: if_splits)
  show ?thesis
  proof (cases ob)
    case (PList xs)
    with Some assms(2) show ?thesis by (simp add: h_get_def)
  next
    case (PDict kv)
    show ?thesis
    proof (cases "map_of kv k")
      case None
      with Some PDict assms(2) show ?thesis by (auto simp: h_get_def)
    next
      case (Some x)
      then have "(k, x) \<in> set kv" by (rule map_of_SomeD)
      then have "x \<in> snd ` set kv" by force
      moreover from PDict ob have "h ! a = PDict kv" by simp
      ultimately have "x \<in> set (items (h ! a))" by simp
      with assms(1) a have "valid h x" by (rule closed_items)
      with \<open>deref h v = Some ob\<close> PDict Some assms(2) show ?thesis
        by (auto simp: h_get_def)
    qed
  qed
qed

lemma deref_list_valid:
  assumes "closed_heap h" and "deref h v = Some (PList xs)"
  shows "list_all (valid h) xs"
proof -
  from assms(2) obtain a where a: "a < length h" and ob: "h ! a = PList xs"
    by (cases v) (auto split: if_splits)
  have "\<forall>x \<in> set (items (h ! a)). valid h x"
    using assms(1) a by (auto intro: closed_items)
  with ob show ?thesis by (simp add: list_all_iff)
qed

lemma get_values_h_extends:
  "extends h g \<Longrightarrow> list_all (valid h) xs \<Longrightarrow> get_values_h g xs = get_values_h h xs"
  by (induction xs) (simp_all add: h_get_extends cong: sum.case_cong)

lemma cascading_loop_h_extends:
  "extends h g \<Longrightarrow> length h \<le> a \<Longrightarrow> extends h (snd (cascading_loop_h parts nest a g))"
  by (induction parts arbitrary: nest) (auto simp: extends_append split: sum.splits)

lemma multiple_choice_loop_h_extends:
  "extends h g \<Longrightarrow> extends h (snd (multiple_choice_loop_h parts nest a g))"
  by (induction parts arbitrary: nest)
    (auto simp: extends_snoc split: sum.splits option.splits pyobj.splits)

lemma field_value_h_extends: "extends h (snd (field_value_h pt flat issue f h))"
proof -
  have e0: "extends h (h @ [PList []])" by (simp add: extends_snoc extends_refl)
  have c: "extends h (snd (get_value_for_cascading_select_field_h p issue h))" for p
  proof -
    have "extends h (snd (cascading_loop_h (split CHR ''.'' p) issue (length h) (h @ [PList []])))"
      using e0 by (rule cascading_loop_h_extends) simp
    then show ?thesis
      by (auto simp: get_value_for_cascading_select_field_h_def extends_refl split: prod.splits sum.splits option.splits
          pyobj.splits)
  qed
  have m: "extends h (snd (get_value_for_multiple_choice_field_h p issue h))" for p
    using multiple_choice_loop_h_extends [OF e0]
    by (simp add: get_value_for_multiple_choice_field_h_def extends_refl)
  show ?thesis
    by (simp add: field_value_h_def c m extends_refl split: option.splits)
qed

lemma h_append_deref:
  "a < length g \<Longrightarrow> g ! a = PList vs \<Longrightarrow>
   deref (h_append g a v) (VRef a) = Some (PList (vs @ [v]))"
  by (simp add: h_append_def)

lemma cascading_marker_agree:
  assumes c: "closed_heap h" and v: "valid h nest" and m: "str_in ''|'' p"
    and g: "extends h g" "length h \<le> a" "a < length g" "g ! a = PList vs"
    and g': "extends h g'" "length h \<le> a'" "a' < length g'" "g' ! a' = PList vs"
  shows "fst (cascading_loop_h (p # ps) nest a g) = fst (cascading_loop_h (p # ps) nest a' g')
       \<and> deref (snd (cascading_loop_h (p # ps) nest a g)) (VRef a)
         = deref (snd (cascading_loop_h (p # ps) nest a' g')) (VRef a')"
proof -
  have one: "fst (cascading_loop_h (p # ps) nest b k) =
       (case h_get h nest ''value'' of
          Inl e \<Rightarrow> Inl e
        | Inr parent \<Rightarrow>
           (case h_get h nest ''child'' of
              Inl e \<Rightarrow> Inl e
            | Inr child_option \<Rightarrow>
               (if h_truthy h child_option then
                  (case h_get h child_option ''value'' of Inl e \<Rightarrow> Inl e | Inr child \<Rightarrow> Inr ())
                else Inr ())))
     \<and> deref (snd (cascading_loop_h (p # ps) nest b k)) (VRef b) =
       Some (PList (vs @
       (case h_get h nest ''value'' of
          Inl e \<Rightarrow> []
        | Inr parent \<Rightarrow>
           (case h_get h nest ''child'' of
              Inl e \<Rightarrow> [parent]
            | Inr child_option \<Rightarrow>
               (if h_truthy h child_option then
                  (case h_get h child_option ''value'' of
                     Inl e \<Rightarrow> [parent] | Inr child \<Rightarrow> [parent, child])
                else [parent])))))"
    if k: "extends h k" "length h \<le> b" "b < length k" "k ! b = PList vs" for k b
  proof -
    have g0: "h_get k x y = h_get h x y" if "valid h x" for x y
      using k(1) that by (rule h_get_extends)
    show ?thesis
    proof (cases "h_get h nest ''value''")
      case (Inl e)
      with m v k show ?thesis by (simp add: g0)
    next
      case (Inr parent)
      let ?k1 = "h_append k b parent"
      have e1: "extends h ?k1" using k(1,2) by (rule extends_append)
      have l1: "b < length ?k1" using k(3) by (simp add: length_h_append)
      have n1: "?k1 ! b = PList (vs @ [parent])" using k(3,4) by (rule h_append_nth)
      have d1: "deref ?k1 (VRef b) = Some (PList (vs @ [parent]))" using l1 n1 by simp
      have g1: "h_get ?k1 x y = h_get h x y" if "valid h x" for x y
        using e1 that by (rule h_get_extends)
      have t1: "h_truthy ?k1 x = h_truthy h x" if "valid h x" for x
        using e1 that by (rule h_truthy_extends)
      show ?thesis
      proof (cases "h_get h nest ''child''")
        case (Inl e)
        with Inr m v show ?thesis by (simp add: g0 g1 d1 del: deref.simps)
      next
        case co: (Inr child_option)
        from c co have vc: "valid h child_option" by (rule h_get_valid)
        show ?thesis
        proof (cases "h_truthy h child_option")
          case False
          with Inr co m v vc show ?thesis by (simp add: g0 g1 t1 d1 del: deref.simps)
        next
          case True
          show ?thesis
          proof (cases "h_get h child_option ''value''")
            case (Inl e)
            with True Inr co m v vc show ?thesis by (simp add: g0 g1 t1 d1 del: deref.simps)
          next
            case ch: (Inr child)
            have "deref (h_append ?k1 b child) (VRef b) = Some (PList ((vs @ [parent]) @ [child]))"
              using l1 n1 by (rule h_append_deref)
            with True Inr co ch m v vc show ?thesis by (simp add: g0 g1 t1 del: deref.simps)
          qed
        qed
      qed
    qed
  qed
  from one [OF g] one [OF g'] show ?thesis by simp
qed

lemma cascading_loop_h_agree:
  assumes c: "closed_heap h"
    and g: "extends h g" "length h \<le> a" "a < length g" "g ! a = PList vs"
    and g': "extends h g'" "length h \<le> a'" "a' < length g'" "g' ! a' = PList vs"
  shows "valid h nest \<Longrightarrow>
         fst (cascading_loop_h parts nest a g) = fst (cascading_loop_h parts nest a' g')
       \<and> deref (snd (cascading_loop_h parts nest a g)) (VRef a)
         = deref (snd (cascading_loop_h parts nest a' g')) (VRef a')"
proof (induction parts arbitrary: nest)
  case Nil
  with g g' show ?case by simp
next
  case (Cons p ps)
  show ?case
  proof (cases "str_in ''|'' p")
    case True
    with c Cons.prems show ?thesis using g g' by (rule cascading_marker_agree)
  next
    case False
    have eq: "h_get g nest p = h_get h nest p" "h_get g' nest p = h_get h nest p"
      using g(1) g'(1) Cons.prems by (simp_all add: h_get_extends)
    show ?thesis
    proof (cases "h_get h nest p")
      case (Inl e)
      with False eq g g' show ?thesis by simp
    next
      case (Inr nest')
      with c have "valid h nest'" by (rule h_get_valid)
      from Cons.IH [OF this] False eq Inr show ?thesis by simp
    qed
  qed
qed

lemma v_join_h_join:
  "a < length g \<Longrightarrow> g ! a = PList vs \<Longrightarrow> h_join sep g a = v_join sep vs"
  by (simp add: h_join_def)

lemma multiple_choice_loop_h_agree:
  assumes c: "closed_heap h"
    and g: "extends h g" "a < length g" "g ! a = PList []"
    and g': "extends h g'" "a' < length g'" "g' ! a' = PList []"
  shows "valid h nest \<Longrightarrow>
         fst (multiple_choice_loop_h parts nest a g) = fst (multiple_choice_loop_h parts nest a' g')"
proof (induction parts arbitrary: nest)
  case Nil
  from g(2,3) g'(2,3) show ?case by (simp add: v_join_h_join)
next
  case (Cons p ps)
  have d: "deref g nest = deref h nest" "deref g' nest = deref h nest"
    using g(1) g'(1) Cons.prems by (simp_all add: deref_extends)
  have t: "h_truthy g nest = h_truthy h nest" "h_truthy g' nest = h_truthy h nest"
    using g(1) g'(1) Cons.prems by (simp_all add: h_truthy_extends)
  have e: "h_get g nest p = h_get h nest p" "h_get g' nest p = h_get h nest p"
    using g(1) g'(1) Cons.prems by (simp_all add: h_get_extends)
  have walk: "fst (case h_get h nest p of
                     Inl e \<Rightarrow> (Inl e, g)
                   | Inr nest' \<Rightarrow> multiple_choice_loop_h ps nest' a g)
            = fst (case h_get h nest p of
                     Inl e \<Rightarrow> (Inl e, g')
                   | Inr nest' \<Rightarrow> multiple_choice_loop_h ps nest' a' g')"
  proof (cases "h_get h nest p")
    case (Inl e)
    then show ?thesis by simp
  next
    case (Inr nest')
    with c have "valid h nest'" by (rule h_get_valid)
    from Cons.IH [OF this] Inr show ?thesis by simp
  qed
  show ?case
  proof (cases "deref h nest")
    case None
    with d t e walk show ?thesis by simp
  next
    case (Some ob)
    show ?thesis
    proof (cases ob)
      case (PDict kv)
      with Some d t e walk show ?thesis by simp
    next
      case (PList xs)
      from c Some PList have "list_all (valid h) xs" by (simp add: deref_list_valid)
      then have gv: "get_values_h g xs = get_values_h h xs" "get_values_h g' xs = get_values_h h xs"
        using g(1) g'(1) by (simp_all add: get_values_h_extends)
      show ?thesis
      proof (cases "get_values_h h xs")
        case (Inl e)
        with Some PList d gv show ?thesis by simp
      next
        case (Inr vs)
        with Some PList d gv show ?thesis by (simp add: v_join_h_join)
      qed
    qed
  qed
qed

lemma fst_cascading_select_field_h:
  "fst (get_value_for_cascading_select_field_h p issue g) =
     (if \<not> str_in ''|'' p then Inr (VStr '''')
      else
        (case fst (cascading_loop_h (split CHR ''.'' p) issue (length g) (g @ [PList []])) of
           Inl e \<Rightarrow> Inl e
         | Inr u \<Rightarrow>
            (case deref (snd (cascading_loop_h (split CHR ''.'' p) issue (length g)
                          (g @ [PList []]))) (VRef (length g)) of
               Some (PList vs) \<Rightarrow> cascading_return vs
             | Some (PDict kv) \<Rightarrow> Inl TypeError
             | None \<Rightarrow> Inl TypeError)))"
  by (cases "cascading_loop_h (split CHR ''.'' p) issue (length g) (g @ [PList []])")
    (simp add: get_value_for_cascading_select_field_h_def split: sum.splits option.splits pyobj.splits)

lemma field_value_h_agree:
  assumes c: "closed_heap h" and v: "valid h issue"
    and g: "extends h g" and g': "extends h g'"
  shows "fst (field_value_h pt flat issue f g) = fst (field_value_h pt flat issue f g')"
proof -
  have s: "extends h (k @ [PList []])" "length h \<le> length k"
    "length k < length (k @ [PList []])" "(k @ [PList []]) ! length k = PList []"
    if "extends h k" for k
    using that by (simp_all add: extends_snoc extends_length)
  have casc: "fst (get_value_for_cascading_select_field_h p issue g) = fst (get_value_for_cascading_select_field_h p issue g')" for p
  proof -
    note agree = cascading_loop_h_agree [OF c s [OF g] s [OF g'] v, of "split CHR ''.'' p"]
    show ?thesis
      unfolding fst_cascading_select_field_h agree [THEN conjunct1] agree [THEN conjunct2]
      by (rule refl)
  qed
  have multi: "fst (get_value_for_multiple_choice_field_h p issue g) = fst (get_value_for_multiple_choice_field_h p issue g')" for p
    using multiple_choice_loop_h_agree [OF c s(1,3,4) [OF g] s(1,3,4) [OF g'] v,
        of "split CHR ''.'' p"]
    by (simp add: get_value_for_multiple_choice_field_h_def)
  show ?thesis
    by (simp add: field_value_h_def casc multi split: option.splits)
qed

text \<open>
  C9. In a closed store that holds the issue, resolving a field leaves every object that
  was in the store as it was (the issue among them; the call only adds its own lists),
  and resolving the same field again, in the store that the first call left, gives the
  same result: the same exception or the same value.
\<close>

theorem resolve_twice_same_result:
  assumes "closed_heap h" and "valid h issue"
  shows "extends h (snd (field_value_h pt flat issue f h))
       \<and> fst (field_value_h pt flat issue f (snd (field_value_h pt flat issue f h)))
         = fst (field_value_h pt flat issue f h)"
proof -
  have e: "extends h (snd (field_value_h pt flat issue f h))"
    by (rule field_value_h_extends)
  from assms e extends_refl
  have "fst (field_value_h pt flat issue f (snd (field_value_h pt flat issue f h)))
      = fst (field_value_h pt flat issue f h)"
    by (rule field_value_h_agree)
  with e show ?thesis by simp
qed

theorem resolve_twice_same_result_witness:
  "closed_heap [PDict [(''fields'', VRef 1)], PDict [(''customfield_1'', VRef 2)],
      PDict [(''value'', VStr ''Region''), (''child'', VRef 3)], PDict [(''value'', VStr ''East'')]]
   \<and> valid [PDict [(''fields'', VRef 1)], PDict [(''customfield_1'', VRef 2)],
      PDict [(''value'', VStr ''Region''), (''child'', VRef 3)], PDict [(''value'', VStr ''East'')]]
      (VRef 0)
   \<and> field_value_h [(''Region'', ''fields.customfield_1.|'')] [] (VRef 0) ''Region''
       [PDict [(''fields'', VRef 1)], PDict [(''customfield_1'', VRef 2)],
        PDict [(''value'', VStr ''Region''), (''child'', VRef 3)],
        PDict [(''value'', VStr ''East'')]]
     = (Inr (VStr ''Region-East''),
        [PDict [(''fields'', VRef 1)], PDict [(''customfield_1'', VRef 2)],
         PDict [(''value'', VStr ''Region''), (''child'', VRef 3)],
         PDict [(''value'', VStr ''East'')], PList [VStr ''Region'', VStr ''East'']])
   \<and> fst (field_value_h [(''Region'', ''fields.customfield_1.|'')] [] (VRef 0) ''Region''
       [PDict [(''fields'', VRef 1)], PDict [(''customfield_1'', VRef 2)],
        PDict [(''value'', VStr ''Region''), (''child'', VRef 3)],
        PDict [(''value'', VStr ''East'')], PList [VStr ''Region'', VStr ''East'']])
     = Inr (VStr ''Region-East'')"
  using resolve_twice_same_result
    [of "[PDict [(''fields'', VRef 1)], PDict [(''customfield_1'', VRef 2)],
          PDict [(''value'', VStr ''Region''), (''child'', VRef 3)],
          PDict [(''value'', VStr ''East'')]]"
        "VRef 0" "[(''Region'', ''fields.customfield_1.|'')]" "[]" "''Region''"]
  by (simp add: closed_heap_def extends_def field_value_h_def get_value_for_cascading_select_field_h_def h_get_def
      h_truthy_def h_append_def cascading_return_def v_join_def)

end
